theory Spec2Isabelle
  imports Complex_Main "HOL-Library.Multiset" "HOL-Library.List_Lexorder"
    "HOL-Library.Char_ord" "HOL-Library.Product_Lexorder"
begin

section \<open>Scoring kernel (src/prediction/scoring.service.ts)\<close>

text \<open>
  A user prediction is a JavaScript object from group label to an array of team ids, the
  ground truth a \<open>Map\<close> with the same shape.  Both are modelled by the list of their
  entries in enumeration order (\<open>Object.entries\<close>, \<open>Map.entries\<close>); labels and ids are
  strings.  A lookup (\<open>obj[key]\<close>, \<open>map.get(key)\<close>) is \<open>map_of\<close> on that list.
\<close>

type_synonym team_id = string
type_synonym group_name = string
type_synonym groups = "(group_name \<times> team_id list) list"

text \<open>The \<open>teams\<close> table row (prediction/entities/team.entity.ts).\<close>

record Team =
  t_id :: team_id
  t_faName :: string
  t_engName :: string
  t_order :: int
  t_group :: "string option"
  t_flag :: string

datatype ScoringRule =
  ALL_CORRECT | TWO_MISPLACED | THREE_MISPLACED | IRAN_GROUP_CORRECT
  | PERFECT_GROUP | THREE_CORRECT | NO_MATCH

record ScoreDetails =
  sd_description :: string
  sd_misplacedCount :: "nat option"
  sd_misplacedTeams :: "team_id list option"
  sd_correctGroups :: "group_name list option"
  sd_correctTeamsCount :: "nat option"
  sd_correctTeams :: "team_id list option"
  sd_iranTeamId :: "team_id option"
  sd_iranGroupTeams :: "team_id list option"
  sd_groupName :: "group_name option"
  sd_teams :: "team_id list option"

record ScoreResult =
  score :: nat
  rule :: ScoringRule
  details :: ScoreDetails

text \<open>\<open>SCORING_CONSTANTS\<close> (prediction/types/scoring.types.ts).\<close>

definition IRAN_TEAM_NAME :: string where
  "IRAN_TEAM_NAME = ''Iran''"

fun SCORES :: "ScoringRule \<Rightarrow> nat" where
  "SCORES ALL_CORRECT = 100"
| "SCORES TWO_MISPLACED = 80"
| "SCORES THREE_MISPLACED = 60"
| "SCORES IRAN_GROUP_CORRECT = 50"
| "SCORES PERFECT_GROUP = 40"
| "SCORES THREE_CORRECT = 20"
| "SCORES NO_MATCH = 0"

definition no_details :: "string \<Rightarrow> ScoreDetails" where
  "no_details d = \<lparr> sd_description = d, sd_misplacedCount = None, sd_misplacedTeams = None,
     sd_correctGroups = None, sd_correctTeamsCount = None, sd_correctTeams = None,
     sd_iranTeamId = None, sd_iranGroupTeams = None, sd_groupName = None, sd_teams = None \<rparr>"

text \<open>
  \<open>new Set(xs)\<close>: the elements of \<open>xs\<close> in order of first occurrence.  \<open>Set.has\<close> and
  \<open>Array.includes\<close> are membership, \<open>Set.size\<close> the length of that list.
\<close>

fun set_add :: "'a list \<Rightarrow> 'a list \<Rightarrow> 'a list" where
  "set_add acc [] = acc"
| "set_add acc (x # xs) = set_add (if x \<in> set acc then acc else acc @ [x]) xs"

definition new_Set :: "'a list \<Rightarrow> 'a list" where
  "new_Set xs = set_add [] xs"

definition has :: "'a list \<Rightarrow> 'a \<Rightarrow> bool" where
  "has s x = (x \<in> set s)"

text \<open>prediction/helpers/prediction.helper.ts\<close>

definition areSetsEqual :: "'a list \<Rightarrow> 'a list \<Rightarrow> bool" where
  "areSetsEqual set1 set2 = (length set1 = length set2 \<and> list_all (\<lambda>item. has set2 item) set1)"

fun findGroupWithTeam :: "groups \<Rightarrow> team_id \<Rightarrow> group_name option" where
  "findGroupWithTeam [] teamId = None"
| "findGroupWithTeam ((g, ts) # rest) teamId =
     (if teamId \<in> set ts then Some g else findGroupWithTeam rest teamId)"

text \<open>\<open>correctGroups.get(group) || []\<close>: an array is truthy, only a missing key gives \<open>[]\<close>.\<close>

definition get_or_empty :: "groups \<Rightarrow> group_name \<Rightarrow> team_id list" where
  "get_or_empty m g = (case map_of m g of None \<Rightarrow> [] | Some ts \<Rightarrow> ts)"

text \<open>
  JavaScript truthiness of a \<open>string | null | undefined\<close>: \<open>null\<close>, \<open>undefined\<close> and the
  empty string are falsy.
\<close>

definition truthy :: "string option \<Rightarrow> bool" where
  "truthy v = (case v of None \<Rightarrow> False | Some s \<Rightarrow> s \<noteq> [])"

text \<open>\<open>GroupDataService.getTeamByName\<close>: \<open>findOne({ where: { engName } })\<close> on the table.\<close>

definition getTeamByName :: "Team list \<Rightarrow> string \<Rightarrow> Team option" where
  "getTeamByName tbl teamName = find (\<lambda>t. t_engName t = teamName) tbl"

text \<open>The first loop of \<open>scoreUser\<close>: the misplaced teams, group by group.\<close>

definition misplaced_in :: "groups \<Rightarrow> group_name \<times> team_id list \<Rightarrow> team_id list" where
  "misplaced_in cg e =
     (let correctTeamSet = new_Set (get_or_empty cg (fst e));
          userTeamSet = new_Set (snd e)
      in filter (\<lambda>team. \<not> has correctTeamSet team) userTeamSet)"

definition collectMisplaced :: "groups \<Rightarrow> groups \<Rightarrow> team_id list" where
  "collectMisplaced ug cg = concat (map (misplaced_in cg) ug)"

definition checkIranGroupCorrect :: "groups \<Rightarrow> groups \<Rightarrow> team_id \<Rightarrow> ScoreResult option" where
  "checkIranGroupCorrect ug cg iranId =
     (let userIranGroup = findGroupWithTeam ug iranId in
      if \<not> truthy userIranGroup then None
      else
        let correctIranGroup = findGroupWithTeam cg iranId in
        if userIranGroup \<noteq> correctIranGroup then None
        else
          let userTeammates = new_Set (get_or_empty ug (the userIranGroup));
              correctTeammates = new_Set (get_or_empty cg (the userIranGroup))
          in if areSetsEqual userTeammates correctTeammates
             then Some \<lparr> score = SCORES IRAN_GROUP_CORRECT, rule = IRAN_GROUP_CORRECT,
                    details = (no_details ''All Iran teammates correctly placed'')
                      \<lparr> sd_iranTeamId := Some iranId, sd_iranGroupTeams := Some correctTeammates \<rparr> \<rparr>
             else None)"

fun checkPerfectGroup :: "groups \<Rightarrow> groups \<Rightarrow> ScoreResult option" where
  "checkPerfectGroup [] cg = None"
| "checkPerfectGroup ((g, userTeams) # rest) cg =
     (let userTeamSet = new_Set userTeams;
          correctTeamSet = new_Set (get_or_empty cg g)
      in if areSetsEqual userTeamSet correctTeamSet
         then Some \<lparr> score = SCORES PERFECT_GROUP, rule = PERFECT_GROUP,
                details = (no_details ''One entire group fully correct'')
                  \<lparr> sd_groupName := Some g, sd_teams := Some correctTeamSet \<rparr> \<rparr>
         else checkPerfectGroup rest cg)"

fun checkThreeCorrect :: "groups \<Rightarrow> groups \<Rightarrow> ScoreResult option" where
  "checkThreeCorrect [] cg = None"
| "checkThreeCorrect ((g, userTeams) # rest) cg =
     (let userTeamSet = new_Set userTeams;
          correctTeamSet = new_Set (get_or_empty cg g);
          intersection = filter (\<lambda>team. has correctTeamSet team) userTeamSet
      in if length intersection = 3
         then Some \<lparr> score = SCORES THREE_CORRECT, rule = THREE_CORRECT,
                details = (no_details ''3 teams correct in one group'')
                  \<lparr> sd_groupName := Some g, sd_correctTeams := Some intersection \<rparr> \<rparr>
         else checkThreeCorrect rest cg)"

definition countCorrectTeams :: "groups \<Rightarrow> groups \<Rightarrow> nat" where
  "countCorrectTeams ug cg =
     sum_list (map (\<lambda>e. length (filter (\<lambda>team. has (new_Set (get_or_empty cg (fst e))) team)
                                    (new_Set (snd e)))) ug)"

definition isGroupPerfect :: "team_id list \<Rightarrow> team_id list \<Rightarrow> bool" where
  "isGroupPerfect userTeams correctTeams = areSetsEqual (new_Set userTeams) (new_Set correctTeams)"

definition getCorrectGroupNames :: "groups \<Rightarrow> groups \<Rightarrow> group_name list" where
  "getCorrectGroupNames ug cg =
     map fst (filter (\<lambda>e. isGroupPerfect (snd e) (get_or_empty cg (fst e))) ug)"

text \<open>
  \<open>ScoringService.scoreUser\<close>.  The team table stands for the repository behind
  \<open>getTeamByName\<close>; \<open>iranTeam?.id\<close> is \<open>None\<close> when no team is called Iran.
\<close>

definition scoreUser :: "Team list \<Rightarrow> groups \<Rightarrow> groups \<Rightarrow> ScoreResult" where
  "scoreUser tbl ug cg =
     (let iranId = map_option t_id (getTeamByName tbl IRAN_TEAM_NAME);
          misplaced = collectMisplaced ug cg;
          cnt = length misplaced
      in
      if cnt = 0 then
        \<lparr> score = SCORES ALL_CORRECT, rule = ALL_CORRECT,
          details = (no_details ''All 48 teams correctly placed'')
            \<lparr> sd_misplacedCount := Some 0, sd_misplacedTeams := Some [],
              sd_correctGroups := Some (getCorrectGroupNames ug cg),
              sd_correctTeamsCount := Some (countCorrectTeams ug cg) \<rparr> \<rparr>
      else if cnt = 2 then
        \<lparr> score = SCORES TWO_MISPLACED, rule = TWO_MISPLACED,
          details = (no_details ''Only 2 teams misplaced'')
            \<lparr> sd_misplacedCount := Some 2, sd_misplacedTeams := Some misplaced \<rparr> \<rparr>
      else if cnt = 3 then
        \<lparr> score = SCORES THREE_MISPLACED, rule = THREE_MISPLACED,
          details = (no_details ''Only 3 teams misplaced'')
            \<lparr> sd_misplacedCount := Some 3, sd_misplacedTeams := Some misplaced \<rparr> \<rparr>
      else
        (case (if truthy iranId then checkIranGroupCorrect ug cg (the iranId) else None) of
           Some iranScore \<Rightarrow> iranScore
         | None \<Rightarrow>
            (case checkPerfectGroup ug cg of
               Some perfectGroupScore \<Rightarrow> perfectGroupScore
             | None \<Rightarrow>
                (case checkThreeCorrect ug cg of
                   Some threeCorrectScore \<Rightarrow> threeCorrectScore
                 | None \<Rightarrow>
                    \<lparr> score = SCORES NO_MATCH, rule = NO_MATCH,
                      details = (no_details ''No scoring rules matched'')
                        \<lparr> sd_misplacedCount := Some cnt, sd_misplacedTeams := Some misplaced \<rparr> \<rparr>))))"

subsection \<open>The rule table of the specification\<close>

text \<open>
  The following definitions follow the specification's words (section 4.6), not the code:
  the misplaced count as a sum of set differences, one condition per rule, and the first
  rule of the priority order whose condition holds.  \<open>designated\<close> is the id of the team
  whose English name is Iran, if there is one.
\<close>

definition designated :: "Team list \<Rightarrow> team_id option" where
  "designated tbl = map_option t_id (getTeamByName tbl IRAN_TEAM_NAME)"

definition spec_misplaced :: "groups \<Rightarrow> groups \<Rightarrow> nat" where
  "spec_misplaced ug cg = sum_list (map (\<lambda>e. card (set (snd e) - set (get_or_empty cg (fst e)))) ug)"

fun spec_condition :: "Team list \<Rightarrow> groups \<Rightarrow> groups \<Rightarrow> ScoringRule \<Rightarrow> bool" where
  "spec_condition tbl ug cg ALL_CORRECT = (spec_misplaced ug cg = 0)"
| "spec_condition tbl ug cg TWO_MISPLACED = (spec_misplaced ug cg = 2)"
| "spec_condition tbl ug cg THREE_MISPLACED = (spec_misplaced ug cg = 3)"
| "spec_condition tbl ug cg IRAN_GROUP_CORRECT =
     (case designated tbl of
        None \<Rightarrow> False
      | Some i \<Rightarrow>
          (case findGroupWithTeam ug i of
             None \<Rightarrow> False
           | Some g \<Rightarrow> findGroupWithTeam cg i = Some g
                       \<and> set (get_or_empty ug g) = set (get_or_empty cg g)))"
| "spec_condition tbl ug cg PERFECT_GROUP =
     (\<exists>e \<in> set ug. set (snd e) = set (get_or_empty cg (fst e)))"
| "spec_condition tbl ug cg THREE_CORRECT =
     (\<exists>e \<in> set ug. card (set (snd e) \<inter> set (get_or_empty cg (fst e))) = 3)"
| "spec_condition tbl ug cg NO_MATCH = True"



text \<open>Sample data in the shape of the specification's scenarios (team 17 is Iran, group E).\<close>

definition mk_team :: "team_id \<Rightarrow> string \<Rightarrow> group_name \<Rightarrow> int \<Rightarrow> Team" where
  "mk_team i name g n = \<lparr> t_id = i, t_faName = name, t_engName = name, t_order = n,
                           t_group = Some g, t_flag = [] \<rparr>"

definition example_teams :: "Team list" where
  "example_teams =
     [mk_team ''1'' ''Qatar'' ''A'' 1, mk_team ''2'' ''Ecuador'' ''A'' 2,
      mk_team ''3'' ''Senegal'' ''A'' 3, mk_team ''4'' ''Netherlands'' ''A'' 4,
      mk_team ''17'' ''Iran'' ''E'' 1, mk_team ''18'' ''Japan'' ''E'' 2,
      mk_team ''19'' ''Spain'' ''E'' 3, mk_team ''20'' ''Germany'' ''E'' 4]"

definition example_truth :: groups where
  "example_truth = [(''A'', [''1'', ''2'', ''3'', ''4'']), (''E'', [''17'', ''18'', ''19'', ''20''])]"

definition example_user :: groups where
  "example_user = [(''A'', [''5'', ''6'', ''7'', ''8'']), (''E'', [''20'', ''17'', ''19'', ''18''])]"



text \<open>
  \<open>permuted_within a b\<close>: \<open>b\<close> has the groups of \<open>a\<close>, label by label and in the same
  order, each with its team ids permuted.
\<close>

definition permuted_within :: "groups \<Rightarrow> groups \<Rightarrow> bool" where
  "permuted_within a b =
     list_all2 (\<lambda>x y. fst x = fst y \<and> mset (snd x) = mset (snd y)) a b"

section \<open>Redis adapter (src/redis/redis.service.ts)\<close>

text \<open>
  The adapter forwards \<open>get\<close>, \<open>setex\<close>, \<open>del\<close>, \<open>incr\<close> and \<open>expire\<close> to the server.  The
  store is modelled by the key families the services use, each with the type of value the
  code writes there: plain strings written with \<open>setex\<close> (session ids, rate-limit
  markers), the JSON text of an OTP record, the JSON text of a group map, and integer
  counters driven by \<open>incr\<close>.
  \<open>JSON.parse (JSON.stringify v)\<close> is taken to be \<open>v\<close>.  The families never share a key: all
  keys start with distinct constant prefixes.  Times are milliseconds (\<open>Date.now()\<close>); an
  entry written with a TTL of \<open>n\<close> seconds at time \<open>now\<close> is visible while the clock is
  below \<open>now + n * 1000\<close>.  Commands are taken to succeed.
\<close>

record OtpData =
  o_code :: string
  o_expiresAt :: int
  o_attempts :: nat
  o_phone :: string
  o_ip :: string
  o_userAgent :: string

record Redis =
  texts :: "string \<rightharpoonup> string \<times> int"
  otps :: "string \<rightharpoonup> OtpData \<times> int"
  group_maps :: "string \<rightharpoonup> groups \<times> int"
  counters :: "string \<rightharpoonup> int \<times> int option"

definition redis_get :: "Redis \<Rightarrow> int \<Rightarrow> string \<Rightarrow> string option" where
  "redis_get r now key =
     (case texts r key of
        None \<Rightarrow> None
      | Some (v, till) \<Rightarrow> if now < till then Some v else None)"

definition redis_setex :: "Redis \<Rightarrow> int \<Rightarrow> string \<Rightarrow> int \<Rightarrow> string \<Rightarrow> Redis" where
  "redis_setex r now key seconds v = r \<lparr> texts := (texts r)(key \<mapsto> (v, now + seconds * 1000)) \<rparr>"

definition redis_del :: "Redis \<Rightarrow> string \<Rightarrow> Redis" where
  "redis_del r key = r \<lparr> texts := (texts r)(key := None), otps := (otps r)(key := None),
                        group_maps := (group_maps r)(key := None),
                        counters := (counters r)(key := None) \<rparr>"

definition redis_get_otp :: "Redis \<Rightarrow> int \<Rightarrow> string \<Rightarrow> OtpData option" where
  "redis_get_otp r now key =
     (case otps r key of
        None \<Rightarrow> None
      | Some (v, till) \<Rightarrow> if now < till then Some v else None)"

definition redis_setex_otp :: "Redis \<Rightarrow> int \<Rightarrow> string \<Rightarrow> int \<Rightarrow> OtpData \<Rightarrow> Redis" where
  "redis_setex_otp r now key seconds v = r \<lparr> otps := (otps r)(key \<mapsto> (v, now + seconds * 1000)) \<rparr>"



text \<open>\<open>INCR\<close>: a missing or expired counter counts from 0; a live one keeps its expiry.\<close>

definition live_counter :: "Redis \<Rightarrow> int \<Rightarrow> string \<Rightarrow> (int \<times> int option) option" where
  "live_counter r now key =
     (case counters r key of
        None \<Rightarrow> None
      | Some (n, None) \<Rightarrow> Some (n, None)
      | Some (n, Some till) \<Rightarrow> if now < till then Some (n, Some till) else None)"

definition redis_incr :: "Redis \<Rightarrow> int \<Rightarrow> string \<Rightarrow> int \<times> Redis" where
  "redis_incr r now key =
     (case live_counter r now key of
        None \<Rightarrow> (1, r \<lparr> counters := (counters r)(key \<mapsto> (1, None)) \<rparr>)
      | Some (n, till) \<Rightarrow> (n + 1, r \<lparr> counters := (counters r)(key \<mapsto> (n + 1, till)) \<rparr>))"

definition redis_expire :: "Redis \<Rightarrow> int \<Rightarrow> string \<Rightarrow> int \<Rightarrow> Redis" where
  "redis_expire r now key seconds =
     (case live_counter r now key of
        None \<Rightarrow> r
      | Some (n, till) \<Rightarrow> r \<lparr> counters := (counters r)(key \<mapsto> (n, Some (now + seconds * 1000))) \<rparr>)"

section \<open>Sessions (src/auth)\<close>

text \<open>The \<open>sessions\<close> table row (auth/entities/session.entity.ts); dates in milliseconds.\<close>

record Session =
  s_id :: string
  s_userId :: string
  s_tokenHash :: string
  s_refreshTokenHash :: "string option"
  s_userAgent :: "string option"
  s_ipAddress :: "string option"
  s_createdAt :: int
  s_expiresAt :: int

text \<open>\<open>AUTH_CONSTANTS\<close> (auth/constants/auth.constants.ts) and the fixed cache prefixes of
  config/configuration.ts.\<close>

definition PREFIX_LENGTH :: nat where "PREFIX_LENGTH = 16"
definition RECENT_LOOKUP_LIMIT :: nat where "RECENT_LOOKUP_LIMIT = 3"
definition BULK_REFRESH_LOOKUP_LIMIT :: nat where "BULK_REFRESH_LOOKUP_LIMIT = 100"
definition ONE_HOUR_SECONDS :: int where "ONE_HOUR_SECONDS = 3600"
definition cachePrefix :: string where "cachePrefix = ''session:token:''"
definition refreshCachePrefix :: string where "refreshCachePrefix = ''session:refresh:''"

text \<open>The configurable part of \<open>auth.session\<close> and \<open>auth.security\<close>.\<close>

record AuthConfig =
  tokenLength :: nat
  ttlSeconds :: int
  accessTokenTtlSeconds :: int
  refreshTokenTtlSeconds :: int
  enableIpValidation :: bool
  enableUserAgentValidation :: bool

text \<open>
  The state the session service works on: the session table in row order and the Redis
  store.  Audit logging and metrics only append to sinks nothing reads; they are left out.
\<close>

record AuthState =
  sessionRepository :: "Session list"
  redisService :: Redis

subsection \<open>Token primitives (auth/services/token.service.ts)\<close>

text \<open>
  \<open>bcrypt.compare\<close> is a parameter \<open>vt\<close> of every operation that verifies a token, and the
  pair produced by \<open>generateToken\<close> (random bytes and their bcrypt hash) a parameter of the
  operation that creates one.
\<close>

type_synonym verifier = "string \<Rightarrow> string \<Rightarrow> bool"

definition getTokenPrefix :: "string \<Rightarrow> string" where
  "getTokenPrefix token = take PREFIX_LENGTH token"

definition is_hex :: "char \<Rightarrow> bool" where
  "is_hex c = (c \<in> set ''0123456789abcdefABCDEF'')"

text \<open>The test of \<open>/^[a-f0-9]+$/i\<close>: one or more hexadecimal digits and nothing else.\<close>

definition hex_regex_test :: "string \<Rightarrow> bool" where
  "hex_regex_test token = (token \<noteq> [] \<and> list_all is_hex token)"

definition validateTokenFormat :: "AuthConfig \<Rightarrow> string \<Rightarrow> bool" where
  "validateTokenFormat cfg token =
     (token \<noteq> [] \<and> length token = tokenLength cfg * 2 \<and> hex_regex_test token)"

subsection \<open>Session cache (auth/services/session-cache.service.ts)\<close>

definition cacheAccessToken :: "Redis \<Rightarrow> int \<Rightarrow> string \<Rightarrow> string \<Rightarrow> int \<Rightarrow> Redis" where
  "cacheAccessToken r now tokenPrefix sessionId ttl =
     redis_setex r now (cachePrefix @ tokenPrefix) ttl sessionId"

definition getCachedSessionByAccessToken :: "Redis \<Rightarrow> int \<Rightarrow> string \<Rightarrow> string option" where
  "getCachedSessionByAccessToken r now tokenPrefix = redis_get r now (cachePrefix @ tokenPrefix)"

definition getCachedSessionByRefreshToken :: "Redis \<Rightarrow> int \<Rightarrow> string \<Rightarrow> string option" where
  "getCachedSessionByRefreshToken r now tokenPrefix =
     redis_get r now (refreshCachePrefix @ tokenPrefix)"

definition invalidateAccessToken :: "Redis \<Rightarrow> string \<Rightarrow> Redis" where
  "invalidateAccessToken r tokenPrefix = redis_del r (cachePrefix @ tokenPrefix)"

definition incrementRefreshFrequency :: "Redis \<Rightarrow> int \<Rightarrow> string \<Rightarrow> int \<times> Redis" where
  "incrementRefreshFrequency r now userId =
     (let refreshKey = ''refresh:frequency:'' @ userId;
          (refreshCount, r1) = redis_incr r now refreshKey
      in (refreshCount, redis_expire r1 now refreshKey ONE_HOUR_SECONDS))"

subsection \<open>Repository queries used by the session service\<close>

text \<open>
  \<open>findOne({ where: { id } })\<close>; \<open>find\<close> with \<open>expiresAt > now\<close>, newest first, at most
  \<open>take\<close> rows (rows with equal \<open>createdAt\<close> keep their table order); the same without an
  order; \<open>save\<close> of a loaded entity, which rewrites the row with that id; and \<open>delete\<close> by
  id and owner.
\<close>

definition findOne_by_id :: "Session list \<Rightarrow> string \<Rightarrow> Session option" where
  "findOne_by_id tbl i = find (\<lambda>s. s_id s = i) tbl"

definition find_recent :: "Session list \<Rightarrow> int \<Rightarrow> nat \<Rightarrow> Session list" where
  "find_recent tbl now n =
     take n (sort_key (\<lambda>s. - s_createdAt s) (filter (\<lambda>s. s_expiresAt s > now) tbl))"

definition find_live :: "Session list \<Rightarrow> int \<Rightarrow> nat \<Rightarrow> Session list" where
  "find_live tbl now n = take n (filter (\<lambda>s. s_expiresAt s > now) tbl)"

definition save_session :: "Session list \<Rightarrow> Session \<Rightarrow> Session list" where
  "save_session tbl s =
     (if \<exists>r \<in> set tbl. s_id r = s_id s
      then map (\<lambda>r. if s_id r = s_id s then s else r) tbl
      else tbl @ [s])"

text \<open>
  \<open>rehash s h\<close> maps the row \<open>s\<close> to itself with access hash \<open>h\<close> and every other row to
  itself: what saving \<open>s\<close> with a new hash does to a table whose ids are a key.
\<close>

definition rehash :: "Session \<Rightarrow> string \<Rightarrow> Session \<Rightarrow> Session" where
  "rehash s h r = (if r = s then s \<lparr> s_tokenHash := h \<rparr> else r)"

definition delete_by_id_user :: "Session list \<Rightarrow> string \<Rightarrow> string \<Rightarrow> Session list" where
  "delete_by_id_user tbl sessionId userId =
     filter (\<lambda>s. \<not> (s_id s = sessionId \<and> s_userId s = userId)) tbl"

subsection \<open>\<open>AuthService\<close> (auth/auth.service.ts)\<close>

definition validateTokenFromCache ::
  "verifier \<Rightarrow> int \<Rightarrow> string \<Rightarrow> string \<Rightarrow> AuthState \<Rightarrow> Session option \<times> AuthState" where
  "validateTokenFromCache vt now token tokenPrefix st =
     (let cachedSessionId = getCachedSessionByAccessToken (redisService st) now tokenPrefix in
      if \<not> truthy cachedSessionId then (None, st)
      else
        (case findOne_by_id (sessionRepository st) (the cachedSessionId) of
           None \<Rightarrow> (None, st)
         | Some session \<Rightarrow>
             if s_expiresAt session > now then
               (if vt token (s_tokenHash session) then (Some session, st)
                else (None, st \<lparr> redisService :=
                                   invalidateAccessToken (redisService st) tokenPrefix \<rparr>))
             else (None, st)))"

definition recacheSession :: "AuthConfig \<Rightarrow> int \<Rightarrow> string \<Rightarrow> Session \<Rightarrow> AuthState \<Rightarrow> AuthState" where
  "recacheSession cfg now tokenPrefix session st =
     (let sessionTtl = ttlSeconds cfg;
          ttlRemaining = (s_expiresAt session - now) div 1000
      in st \<lparr> redisService :=
                cacheAccessToken (redisService st) now tokenPrefix (s_id session)
                  (min ttlRemaining sessionTtl) \<rparr>)"

definition validateTokenFromDatabase ::
  "verifier \<Rightarrow> AuthConfig \<Rightarrow> int \<Rightarrow> string \<Rightarrow> string \<Rightarrow> AuthState \<Rightarrow> Session option \<times> AuthState" where
  "validateTokenFromDatabase vt cfg now token tokenPrefix st =
     (let sessions = find_recent (sessionRepository st) now RECENT_LOOKUP_LIMIT in
      case find (\<lambda>session. vt token (s_tokenHash session)) sessions of
        None \<Rightarrow> (None, st)
      | Some session \<Rightarrow> (Some session, recacheSession cfg now tokenPrefix session st))"

definition validateSession ::
  "verifier \<Rightarrow> AuthConfig \<Rightarrow> int \<Rightarrow> string \<Rightarrow> AuthState \<Rightarrow> Session option \<times> AuthState" where
  "validateSession vt cfg now token st =
     (if \<not> validateTokenFormat cfg token then (None, st)
      else
        let tokenPrefix = getTokenPrefix token in
        (case validateTokenFromCache vt now token tokenPrefix st of
           (Some session, st1) \<Rightarrow> (Some session, st1)
         | (None, st1) \<Rightarrow> validateTokenFromDatabase vt cfg now token tokenPrefix st1))"

definition deleteSession :: "string \<Rightarrow> string \<Rightarrow> AuthState \<Rightarrow> AuthState" where
  "deleteSession userId sessionId st =
     (case find (\<lambda>s. s_id s = sessionId \<and> s_userId s = userId) (sessionRepository st) of
        Some session \<Rightarrow>
          st \<lparr> sessionRepository := delete_by_id_user (sessionRepository st) sessionId userId \<rparr>
      | None \<Rightarrow> st)"

definition findSessionByRefreshTokenFromDatabase ::
  "verifier \<Rightarrow> int \<Rightarrow> string \<Rightarrow> AuthState \<Rightarrow> Session option" where
  "findSessionByRefreshTokenFromDatabase vt now refreshToken st =
     find (\<lambda>s. truthy (s_refreshTokenHash s) \<and> vt refreshToken (the (s_refreshTokenHash s)))
          (find_live (sessionRepository st) now BULK_REFRESH_LOOKUP_LIMIT)"

definition findSessionByRefreshToken ::
  "verifier \<Rightarrow> int \<Rightarrow> string \<Rightarrow> AuthState \<Rightarrow> Session option" where
  "findSessionByRefreshToken vt now refreshToken st =
     (let refreshPrefix = getTokenPrefix refreshToken;
          cachedSessionId = getCachedSessionByRefreshToken (redisService st) now refreshPrefix;
          session =
            (if truthy cachedSessionId then
               (case findOne_by_id (sessionRepository st) (the cachedSessionId) of
                  None \<Rightarrow> None
                | Some s \<Rightarrow>
                    if s_expiresAt s > now \<and> truthy (s_refreshTokenHash s) then
                      (if vt refreshToken (the (s_refreshTokenHash s)) then Some s else None)
                    else None)
             else None)
      in case session of
           Some s \<Rightarrow> Some s
         | None \<Rightarrow> findSessionByRefreshTokenFromDatabase vt now refreshToken st)"

definition checkRefreshFrequency :: "int \<Rightarrow> Session \<Rightarrow> AuthState \<Rightarrow> AuthState" where
  "checkRefreshFrequency now session st =
     st \<lparr> redisService := snd (incrementRefreshFrequency (redisService st) now (s_userId session)) \<rparr>"

definition generateNewAccessToken ::
  "AuthConfig \<Rightarrow> int \<Rightarrow> string \<times> string \<Rightarrow> Session \<Rightarrow> AuthState \<Rightarrow> string \<times> AuthState" where
  "generateNewAccessToken cfg now generated session st =
     (let newAccessToken = fst generated;
          newTokenHash = snd generated;
          session' = session \<lparr> s_tokenHash := newTokenHash \<rparr>;
          st1 = st \<lparr> sessionRepository := save_session (sessionRepository st) session' \<rparr>;
          newTokenPrefix = getTokenPrefix newAccessToken
      in (newAccessToken,
          st1 \<lparr> redisService :=
                  cacheAccessToken (redisService st1) now newTokenPrefix (s_id session')
                    (accessTokenTtlSeconds cfg) \<rparr>))"

datatype auth_error =
  MISSING_ACCESS_TOKEN | INVALID_OR_EXPIRED_TOKEN | SESSION_IP_MISMATCH | AUTHENTICATION_FAILED
  | INVALID_REFRESH_TOKEN

definition refreshSession ::
  "verifier \<Rightarrow> AuthConfig \<Rightarrow> int \<Rightarrow> string \<times> string \<Rightarrow> string \<Rightarrow> AuthState
     \<Rightarrow> auth_error + (string \<times> AuthState)" where
  "refreshSession vt cfg now generated refreshToken st =
     (case findSessionByRefreshToken vt now refreshToken st of
        None \<Rightarrow> Inl INVALID_REFRESH_TOKEN
      | Some session \<Rightarrow>
          Inr (generateNewAccessToken cfg now generated session
                 (checkRefreshFrequency now session st)))"

subsection \<open>\<open>AuthGuard\<close> (auth/guards/auth.guard.ts)\<close>

text \<open>What the guard reads of the request: the authorization and user-agent headers,
  \<open>request.ip\<close> and \<open>request.connection?.remoteAddress\<close>.\<close>

record Request =
  rq_authorization :: "string option"
  rq_userAgent :: "string option"
  rq_ip :: "string option"
  rq_remoteAddress :: "string option"

record Principal =
  p_userId :: string
  p_sessionId :: string

text \<open>\<open>String.split(' ')\<close>: the pieces between single spaces.\<close>

fun split_space :: "string \<Rightarrow> string list" where
  "split_space [] = [[]]"
| "split_space (c # cs) =
     (if c = CHR '' '' then [] # split_space cs
      else (case split_space cs of
              [] \<Rightarrow> [[c]]
            | p # ps \<Rightarrow> (c # p) # ps))"

definition extractTokenFromHeader :: "Request \<Rightarrow> string option" where
  "extractTokenFromHeader request =
     (if \<not> truthy (rq_authorization request) then None
      else
        (case split_space (the (rq_authorization request)) of
           type # token # rest \<Rightarrow> if type = ''Bearer'' then Some token else None
         | _ \<Rightarrow> None))"

text \<open>\<open>request.ip || request.connection?.remoteAddress\<close>\<close>

definition currentIp :: "Request \<Rightarrow> string option" where
  "currentIp request = (if truthy (rq_ip request) then rq_ip request else rq_remoteAddress request)"

definition canActivate ::
  "verifier \<Rightarrow> AuthConfig \<Rightarrow> int \<Rightarrow> Request \<Rightarrow> AuthState \<Rightarrow> (auth_error + Principal) \<times> AuthState" where
  "canActivate vt cfg now request st =
     (let token = extractTokenFromHeader request in
      if \<not> truthy token then (Inl MISSING_ACCESS_TOKEN, st)
      else
        (case validateSession vt cfg now (the token) st of
           (None, st1) \<Rightarrow> (Inl INVALID_OR_EXPIRED_TOKEN, st1)
         | (Some session, st1) \<Rightarrow>
             if enableIpValidation cfg \<and> truthy (s_ipAddress session)
                \<and> truthy (currentIp request) \<and> currentIp request \<noteq> Some ''undefined''
                \<and> s_ipAddress session \<noteq> currentIp request
             then (Inl SESSION_IP_MISMATCH, st1)
             else (Inr \<lparr> p_userId = s_userId session, p_sessionId = s_id session \<rparr>, st1)))"

subsection \<open>Sample data for the session service\<close>

text \<open>
  A stand-in for bcrypt (the hash of a token is the token behind a fixed salt prefix), a
  configuration with two-byte tokens, four sessions created at times 1000 to 4000 that
  expire at 9000000, and an empty cache.
\<close>

definition toy_bcrypt :: verifier where
  "toy_bcrypt token hash = (hash = ''$2b$'' @ token)"

definition example_config :: AuthConfig where
  "example_config = \<lparr> tokenLength = 2, ttlSeconds = 2592000, accessTokenTtlSeconds = 900,
     refreshTokenTtlSeconds = 2592000, enableIpValidation = True,
     enableUserAgentValidation = False \<rparr>"

definition session1 :: Session where
  "session1 = \<lparr> s_id = ''s1'', s_userId = ''u1'', s_tokenHash = ''$2b$a1b2'',
     s_refreshTokenHash = Some ''$2b$9f9f'', s_userAgent = Some ''curl'',
     s_ipAddress = Some ''10.0.0.1'', s_createdAt = 1000, s_expiresAt = 9000000 \<rparr>"

definition session2 :: Session where
  "session2 = \<lparr> s_id = ''s2'', s_userId = ''u2'', s_tokenHash = ''$2b$c3d4'',
     s_refreshTokenHash = Some ''$2b$8e8e'', s_userAgent = None,
     s_ipAddress = None, s_createdAt = 2000, s_expiresAt = 9000000 \<rparr>"

definition session3 :: Session where
  "session3 = \<lparr> s_id = ''s3'', s_userId = ''u1'', s_tokenHash = ''$2b$e5f6'',
     s_refreshTokenHash = None, s_userAgent = None,
     s_ipAddress = Some ''10.0.0.3'', s_createdAt = 3000, s_expiresAt = 9000000 \<rparr>"

definition session4 :: Session where
  "session4 = \<lparr> s_id = ''s4'', s_userId = ''u3'', s_tokenHash = ''$2b$0718'',
     s_refreshTokenHash = Some ''$2b$7d7d'', s_userAgent = None,
     s_ipAddress = None, s_createdAt = 4000, s_expiresAt = 9000000 \<rparr>"

definition empty_redis :: Redis where
  "empty_redis = \<lparr> texts = Map.empty, otps = Map.empty, group_maps = Map.empty,
                    counters = Map.empty \<rparr>"

definition three_sessions :: AuthState where
  "three_sessions = \<lparr> sessionRepository = [session1, session2, session3],
                      redisService = empty_redis \<rparr>"

definition four_sessions :: AuthState where
  "four_sessions = \<lparr> sessionRepository = [session1, session2, session3, session4],
                     redisService = empty_redis \<rparr>"

definition example_request :: Request where
  "example_request = \<lparr> rq_authorization = Some ''Bearer a1b2'', rq_userAgent = Some ''curl'',
                        rq_ip = Some ''10.9.9.9'', rq_remoteAddress = None \<rparr>"

section \<open>One-time codes (src/auth/otp.service.ts)\<close>

subsection \<open>\<open>Number.prototype.toString\<close> on integers\<close>

text \<open>
  The decimal digits of an integer, most significant first, with a minus sign for a
  negative one.  This is what JavaScript prints for an integer below \<open>10^21\<close>.
\<close>

definition digit_of :: "nat \<Rightarrow> char" where
  "digit_of d = ''0123456789'' ! d"

function decimal :: "nat \<Rightarrow> string" where
  "decimal n = (if n < 10 then [digit_of n] else decimal (n div 10) @ [digit_of (n mod 10)])"
  by pat_completeness auto
termination
  by (relation "measure id") auto

declare decimal.simps [simp del]

definition toString :: "int \<Rightarrow> string" where
  "toString i = (if i < 0 then CHR ''-'' # decimal (nat (- i)) else decimal (nat i))"




subsection \<open>Generating and sending a code\<close>

text \<open>
  \<open>generateOtpCode\<close>.  \<open>Math.random()\<close> is the parameter \<open>random\<close>, a real number in
  \<open>[0, 1)\<close>; the arithmetic is that of the reals, which agrees with the doubles of the
  source as long as the integers involved are below \<open>2^53\<close>.
\<close>

definition generateOtpCode :: "int \<Rightarrow> real \<Rightarrow> string" where
  "generateOtpCode len random =
     (let lo = power_int (10 :: real) (len - 1);
          hi = power_int (10 :: real) len - 1
      in toString \<lfloor>lo + random * (hi - lo + 1)\<rfloor>)"

record OtpConfig =
  otp_length :: int
  expirySeconds :: int
  sendCooldownSeconds :: int
  sandbox :: bool

text \<open>
  The errors \<open>sendOtp\<close> can end with: the HTTP 429 exception with its message, and
  whatever the SMS provider raised, which \<open>SmsService.sendOtpSms\<close> logs and rethrows.
\<close>

datatype otp_error = TooManyRequestsException string | SmsProviderError string

text \<open>
  The provider is a parameter: \<open>sms phone code\<close> is \<open>None\<close> when the message went out and
  \<open>Some e\<close> when the provider raised \<open>e\<close>.
\<close>

type_synonym sms_provider = "string \<Rightarrow> string \<Rightarrow> string option"

definition checkRateLimits :: "Redis \<Rightarrow> int \<Rightarrow> string \<Rightarrow> otp_error option" where
  "checkRateLimits r now phone =
     (let sendLimitKey = ''otp:send:limit:'' @ phone;
          isLimited = redis_get r now sendLimitKey
      in if truthy isLimited then Some (TooManyRequestsException ''EXCEEDED_SEND_LIMIT'')
         else
           let lastRequestKey = ''otp:last_request:'' @ phone;
               lastRequest = redis_get r now lastRequestKey
           in if truthy lastRequest
              then Some (TooManyRequestsException ''PLEASE_WAIT_BEFORE_NEXT_REQUEST'')
              else None)"

definition storeOtp :: "Redis \<Rightarrow> int \<Rightarrow> string \<Rightarrow> string \<Rightarrow> int \<Rightarrow> string \<Rightarrow> string \<Rightarrow> Redis" where
  "storeOtp r now phone code expiry ip userAgent =
     (let expiresAt = now + expiry * 1000;
          otpData = \<lparr> o_code = code, o_expiresAt = expiresAt, o_attempts = 0, o_phone = phone,
                      o_ip = ip, o_userAgent = userAgent \<rparr>;
          otpKey = ''otp:phone:'' @ phone
      in redis_setex_otp r now otpKey expiry otpData)"

definition setRateLimitKeys :: "Redis \<Rightarrow> int \<Rightarrow> string \<Rightarrow> int \<Rightarrow> Redis" where
  "setRateLimitKeys r now phone cooldownSeconds =
     (let sendLimitKey = ''otp:send:limit:'' @ phone;
          lastRequestKey = ''otp:last_request:'' @ phone;
          r1 = redis_setex r now sendLimitKey cooldownSeconds ''1''
      in redis_setex r1 now lastRequestKey cooldownSeconds ''1'')"

text \<open>
  \<open>sendOtp\<close>.  Normalising the phone number and the unusual-pattern check only feed the
  audit log and are left out, as are the log and metric calls.  The result pairs the
  outcome (an error, or the response body: the code in sandbox mode, nothing otherwise)
  with the store as the call leaves it.
\<close>

definition sendOtp ::
  "OtpConfig \<Rightarrow> sms_provider \<Rightarrow> real \<Rightarrow> int \<Rightarrow> string \<Rightarrow> string \<Rightarrow> string \<Rightarrow> Redis
     \<Rightarrow> (otp_error + string option) \<times> Redis" where
  "sendOtp cfg sms random now phone ip userAgent r =
     (case checkRateLimits r now phone of
        Some e \<Rightarrow> (Inl e, r)
      | None \<Rightarrow>
          let code = generateOtpCode (otp_length cfg) random;
              r1 = storeOtp r now phone code (expirySeconds cfg) ip userAgent;
              r2 = setRateLimitKeys r1 now phone (sendCooldownSeconds cfg)
          in (case sms phone code of
                Some e \<Rightarrow> (Inl (SmsProviderError e), r2)
              | None \<Rightarrow> (Inr (if sandbox cfg then Some code else None), r2)))"

subsection \<open>Sample data for the OTP service\<close>

definition example_otp_config :: OtpConfig where
  "example_otp_config = \<lparr> otp_length = 6, expirySeconds = 120, sendCooldownSeconds = 120,
                           sandbox = False \<rparr>"

definition failing_sms :: sms_provider where
  "failing_sms phone code = Some ''provider unreachable''"

definition working_sms :: sms_provider where
  "working_sms phone code = None"

section \<open>Broker adapter (rabbitmq/rabbitmq.service.ts)\<close>

text \<open>
  A consumed message: its body, and of its properties the headers the retry logic reads
  and writes (\<open>x-retry-count\<close>, a number when present, and \<open>x-last-error\<close>), the remaining
  headers, and the delivery mode as a stand-in for the properties copied unchanged.
  \<open>m_headers\<close> is \<open>None\<close> when \<open>properties.headers\<close> is undefined.
\<close>

record Headers =
  x_retry_count :: "int option"
  x_last_error :: "string option"
  other_headers :: "(string \<times> string) list"

record Message =
  m_content :: string
  m_headers :: "Headers option"
  m_persistent :: bool

text \<open>What the adapter asks of the channel, in order.\<close>

datatype channel_call =
  Publish string string string "Headers" bool
  | Ack Message
  | Nack Message bool bool

text \<open>\<open>msg.properties.headers?.['x-retry-count'] || 0\<close>\<close>

definition header_retry_count :: "Message \<Rightarrow> int" where
  "header_retry_count msg =
     (case m_headers msg of
        None \<Rightarrow> 0
      | Some h \<Rightarrow> (case x_retry_count h of None \<Rightarrow> 0 | Some n \<Rightarrow> n))"

text \<open>\<open>this.configService.get('rabbitmq.maxRetries') || 3\<close>: unset or 0 gives 3.\<close>

definition effective_maxRetries :: "int option \<Rightarrow> int" where
  "effective_maxRetries cfg = (case cfg of None \<Rightarrow> 3 | Some n \<Rightarrow> if n = 0 then 3 else n)"

definition handleMessageRetry :: "int option \<Rightarrow> Message \<Rightarrow> string \<Rightarrow> string \<Rightarrow> channel_call list" where
  "handleMessageRetry cfg msg queueName errorMessage =
     (let retryCount = header_retry_count msg + 1;
          maxRetries = effective_maxRetries cfg
      in if retryCount < maxRetries then
           let newHeaders =
                 \<lparr> x_retry_count = Some retryCount, x_last_error = Some errorMessage,
                   other_headers = (case m_headers msg of None \<Rightarrow> [] | Some h \<Rightarrow> other_headers h) \<rparr>
           in [Publish [] queueName (m_content msg) newHeaders (m_persistent msg), Ack msg]
         else [Nack msg False False])"

text \<open>
  \<open>processMessage\<close>.  The handler is a function of the body that answers \<open>None\<close> when it
  returns and \<open>Some e\<close> when it (or the JSON decoding before it) throws an error with
  message \<open>e\<close>.
\<close>

definition processMessage ::
  "int option \<Rightarrow> Message \<Rightarrow> string \<Rightarrow> (string \<Rightarrow> string option) \<Rightarrow> channel_call list" where
  "processMessage cfg msg queueName handler =
     (case handler (m_content msg) of
        None \<Rightarrow> [Ack msg]
      | Some e \<Rightarrow> handleMessageRetry cfg msg queueName e)"

text \<open>A message that has already been republished twice, and a handler that always fails.\<close>

definition twice_retried :: Message where
  "twice_retried = \<lparr> m_content = ''{predictionId: p1, userId: u1}'',
       m_headers = Some \<lparr> x_retry_count = Some 2, x_last_error = Some ''boom'',
                           other_headers = [] \<rparr>,
       m_persistent = True \<rparr>"

definition failing_handler :: "string \<Rightarrow> string option" where
  "failing_handler body = Some ''boom''"

section \<open>Worker (prediction/prediction.processor.ts)\<close>





















subsection \<open>Sample data for the worker\<close>




section \<open>Properties of the scoring kernel\<close>

subsection \<open>Sets as duplicate-free lists\<close>

lemma set_set_add: "set (set_add acc xs) = set acc \<union> set xs"
  by (induction xs arbitrary: acc) auto

lemma distinct_set_add: "distinct acc \<Longrightarrow> distinct (set_add acc xs)"
  by (induction xs arbitrary: acc) auto

lemma set_new_Set [simp]: "set (new_Set xs) = set xs"
  by (simp add: new_Set_def set_set_add)

lemma distinct_new_Set [simp]: "distinct (new_Set xs)"
  by (simp add: new_Set_def distinct_set_add)

lemma length_new_Set: "length (new_Set xs) = card (set xs)"
  using distinct_card [of "new_Set xs"] by simp

lemma length_filter_new_Set:
  "length (filter P (new_Set xs)) = card {x \<in> set xs. P x}"
proof -
  have "distinct (filter P (new_Set xs))" by simp
  then have "length (filter P (new_Set xs)) = card (set (filter P (new_Set xs)))"
    by (rule distinct_card [symmetric])
  then show ?thesis by simp
qed

lemma areSetsEqual_new_Set:
  "areSetsEqual (new_Set a) (new_Set b) \<longleftrightarrow> set a = set b"
proof
  assume "areSetsEqual (new_Set a) (new_Set b)"
  then have c: "card (set a) = card (set b)" and s: "set a \<subseteq> set b"
    by (auto simp: areSetsEqual_def length_new_Set has_def list_all_iff)
  show "set a = set b"
    by (rule card_subset_eq [OF _ s c]) simp
next
  assume "set a = set b"
  then show "areSetsEqual (new_Set a) (new_Set b)"
    by (simp add: areSetsEqual_def length_new_Set has_def list_all_iff)
qed

lemma length_misplaced_in:
  "length (misplaced_in cg e) = card (set (snd e) - set (get_or_empty cg (fst e)))"
proof -
  have "{x \<in> set (snd e). x \<notin> set (get_or_empty cg (fst e))}
        = set (snd e) - set (get_or_empty cg (fst e))" by auto
  then show ?thesis
    by (simp add: misplaced_in_def Let_def has_def length_filter_new_Set)
qed

lemma length_collectMisplaced:
  "length (collectMisplaced ug cg) = spec_misplaced ug cg"
  by (simp add: collectMisplaced_def spec_misplaced_def length_concat comp_def length_misplaced_in)

lemma checkPerfectGroup_None:
  "checkPerfectGroup ug cg = None \<longleftrightarrow> \<not> spec_condition tbl ug cg PERFECT_GROUP"
  by (induction ug cg rule: checkPerfectGroup.induct) (simp_all add: Let_def areSetsEqual_new_Set)

lemma checkPerfectGroup_Some:
  "checkPerfectGroup ug cg = Some r \<Longrightarrow> rule r = PERFECT_GROUP \<and> score r = 40"
  by (induction ug) (auto simp: Let_def split: if_splits)

lemma three_inter:
  "length (filter (\<lambda>team. has (new_Set c) team) (new_Set u)) = card (set u \<inter> set c)"
proof -
  have "{x \<in> set u. x \<in> set c} = set u \<inter> set c" by auto
  then show ?thesis by (simp add: has_def length_filter_new_Set)
qed

lemma checkThreeCorrect_None:
  "checkThreeCorrect ug cg = None \<longleftrightarrow> \<not> spec_condition tbl ug cg THREE_CORRECT"
  by (induction ug cg rule: checkThreeCorrect.induct) (simp_all add: Let_def three_inter)

lemma checkThreeCorrect_Some:
  "checkThreeCorrect ug cg = Some r \<Longrightarrow> rule r = THREE_CORRECT \<and> score r = 20"
  by (induction ug) (auto simp: Let_def split: if_splits)


lemma checkIranGroupCorrect_Some:
  "checkIranGroupCorrect ug cg i = Some r \<Longrightarrow> rule r = IRAN_GROUP_CORRECT \<and> score r = 50"
  by (auto simp: checkIranGroupCorrect_def Let_def split: if_splits)


lemma scoreUser_score_rule:
  "score (scoreUser tbl ug cg) = SCORES (rule (scoreUser tbl ug cg))"
  by (auto simp: scoreUser_def Let_def split: option.splits
      dest: checkIranGroupCorrect_Some checkPerfectGroup_Some checkThreeCorrect_Some)


lemma rule_scoreUser:
  "rule (scoreUser tbl ug cg) =
    (if spec_misplaced ug cg = 0 then ALL_CORRECT
     else if spec_misplaced ug cg = 2 then TWO_MISPLACED
     else if spec_misplaced ug cg = 3 then THREE_MISPLACED
     else if (if truthy (designated tbl) then checkIranGroupCorrect ug cg (the (designated tbl))
              else None) \<noteq> None then IRAN_GROUP_CORRECT
     else if checkPerfectGroup ug cg \<noteq> None then PERFECT_GROUP
     else if checkThreeCorrect ug cg \<noteq> None then THREE_CORRECT
     else NO_MATCH)"
  unfolding scoreUser_def Let_def length_collectMisplaced designated_def [symmetric]
  by (auto split: option.splits
      dest: checkIranGroupCorrect_Some checkPerfectGroup_Some checkThreeCorrect_Some)






subsection \<open>Order inside a group does not matter\<close>

lemma permuted_get_or_empty:
  "permuted_within a b \<Longrightarrow> set (get_or_empty a g) = set (get_or_empty b g)"
  unfolding permuted_within_def
proof (induction rule: list_all2_induct)
  case Nil
  then show ?case by (simp add: get_or_empty_def)
next
  case (Cons x xs y ys)
  then have "set (snd x) = set (snd y)" by (metis mset_eq_setD)
  with Cons show ?case
    by (cases x; cases y) (auto simp: get_or_empty_def)
qed

lemma permuted_findGroupWithTeam:
  "permuted_within a b \<Longrightarrow> findGroupWithTeam a i = findGroupWithTeam b i"
  unfolding permuted_within_def
proof (induction rule: list_all2_induct)
  case Nil
  then show ?case by simp
next
  case (Cons x xs y ys)
  then have "set (snd x) = set (snd y)" by (metis mset_eq_setD)
  with Cons show ?case by (cases x; cases y) auto
qed

lemma permuted_misplaced_count:
  assumes c: "permuted_within cg cg'"
  shows "permuted_within ug ug' \<Longrightarrow> spec_misplaced ug cg = spec_misplaced ug' cg'"
  unfolding permuted_within_def
proof (induction rule: list_all2_induct)
  case Nil
  then show ?case by (simp add: spec_misplaced_def)
next
  case (Cons x xs y ys)
  then have "set (snd x) = set (snd y)" "fst x = fst y" by (metis mset_eq_setD)+
  with Cons permuted_get_or_empty [OF c] show ?case
    by (simp add: spec_misplaced_def)
qed

lemma permuted_perfect:
  assumes c: "permuted_within cg cg'"
  shows "permuted_within ug ug' \<Longrightarrow>
         spec_condition tbl ug cg PERFECT_GROUP = spec_condition tbl ug' cg' PERFECT_GROUP"
  unfolding permuted_within_def
proof (induction rule: list_all2_induct)
  case Nil
  then show ?case by simp
next
  case (Cons x xs y ys)
  then have "set (snd x) = set (snd y)" "fst x = fst y" by (metis mset_eq_setD)+
  with Cons permuted_get_or_empty [OF c] show ?case by simp
qed

lemma permuted_three:
  assumes c: "permuted_within cg cg'"
  shows "permuted_within ug ug' \<Longrightarrow>
         spec_condition tbl ug cg THREE_CORRECT = spec_condition tbl ug' cg' THREE_CORRECT"
  unfolding permuted_within_def
proof (induction rule: list_all2_induct)
  case Nil
  then show ?case by simp
next
  case (Cons x xs y ys)
  then have "set (snd x) = set (snd y)" "fst x = fst y" by (metis mset_eq_setD)+
  with Cons permuted_get_or_empty [OF c] show ?case by simp
qed

lemma checkIranGroupCorrect_None_iff:
  "checkIranGroupCorrect ug cg i = None \<longleftrightarrow>
     \<not> (truthy (findGroupWithTeam ug i)
        \<and> findGroupWithTeam ug i = findGroupWithTeam cg i
        \<and> set (get_or_empty ug (the (findGroupWithTeam ug i)))
            = set (get_or_empty cg (the (findGroupWithTeam ug i))))"
  by (simp add: checkIranGroupCorrect_def Let_def areSetsEqual_new_Set)

lemma permuted_iran:
  assumes u: "permuted_within ug ug'" and c: "permuted_within cg cg'"
  shows "checkIranGroupCorrect ug cg i = None \<longleftrightarrow> checkIranGroupCorrect ug' cg' i = None"
  unfolding checkIranGroupCorrect_None_iff
  using permuted_findGroupWithTeam [OF u, of i] permuted_findGroupWithTeam [OF c, of i]
    permuted_get_or_empty [OF u] permuted_get_or_empty [OF c]
  by simp

text \<open>
  Claim C6.  Permuting the team ids inside any group's sequence, in the user prediction,
  in the ground truth or in both, leaves the score and the selected rule of \<open>scoreUser\<close>
  unchanged.
\<close>

theorem scoreUser_permutation_invariant:
  assumes u: "permuted_within ug ug'" and c: "permuted_within cg cg'"
  shows "score (scoreUser tbl ug cg) = score (scoreUser tbl ug' cg')
       \<and> rule (scoreUser tbl ug cg) = rule (scoreUser tbl ug' cg')"
proof -
  have m: "spec_misplaced ug cg = spec_misplaced ug' cg'"
    by (rule permuted_misplaced_count [OF c u])
  have i: "((if truthy (designated tbl) then checkIranGroupCorrect ug cg (the (designated tbl))
             else None) \<noteq> None)
         = ((if truthy (designated tbl) then checkIranGroupCorrect ug' cg' (the (designated tbl))
             else None) \<noteq> None)"
    using permuted_iran [OF u c, of "the (designated tbl)"] by (cases "truthy (designated tbl)") auto
  have p: "(checkPerfectGroup ug cg \<noteq> None) = (checkPerfectGroup ug' cg' \<noteq> None)"
    using permuted_perfect [OF c u, of tbl]
    by (simp only: checkPerfectGroup_None [of _ _ tbl])
  have t: "(checkThreeCorrect ug cg \<noteq> None) = (checkThreeCorrect ug' cg' \<noteq> None)"
    using permuted_three [OF c u, of tbl]
    by (simp only: checkThreeCorrect_None [of _ _ tbl])
  have "rule (scoreUser tbl ug cg) = rule (scoreUser tbl ug' cg')"
    by (simp only: rule_scoreUser m i p t)
  then show ?thesis by (simp add: scoreUser_score_rule)
qed

text \<open>The theorem at the sample data, both mappings reordered.\<close>

theorem scoreUser_permutation_invariant_witness:
  "permuted_within example_user [(''A'', [''8'', ''7'', ''6'', ''5'']), (''E'', [''17'', ''18'', ''19'', ''20''])]
   \<and> permuted_within example_truth [(''A'', [''4'', ''3'', ''2'', ''1'']), (''E'', [''18'', ''17'', ''20'', ''19''])]
   \<and> rule (scoreUser example_teams [(''A'', [''8'', ''7'', ''6'', ''5'']), (''E'', [''17'', ''18'', ''19'', ''20''])]
              [(''A'', [''4'', ''3'', ''2'', ''1'']), (''E'', [''18'', ''17'', ''20'', ''19''])])
       = IRAN_GROUP_CORRECT"
proof -
  have u: "permuted_within example_user
            [(''A'', [''8'', ''7'', ''6'', ''5'']), (''E'', [''17'', ''18'', ''19'', ''20''])]"
    by (simp add: permuted_within_def example_user_def)
  have c: "permuted_within example_truth
            [(''A'', [''4'', ''3'', ''2'', ''1'']), (''E'', [''18'', ''17'', ''20'', ''19''])]"
    by (simp add: permuted_within_def example_truth_def)
  have r: "rule (scoreUser example_teams example_user example_truth) = IRAN_GROUP_CORRECT"
    by code_simp
  from scoreUser_permutation_invariant [OF u c, of example_teams] u c r
  show ?thesis by simp
qed

section \<open>Properties of the session service\<close>

subsection \<open>Deleting one session\<close>

lemma distinct_ids_filter_length:
  "distinct (map s_id tbl) \<Longrightarrow> length tbl \<le> length (filter (\<lambda>s. \<not> (s_id s = i \<and> Q s)) tbl) + 1"
proof (induction tbl)
  case Nil
  then show ?case by simp
next
  case (Cons a tbl)
  show ?case
  proof (cases "s_id a = i")
    case True
    with Cons.prems have "\<forall>s \<in> set tbl. s_id s \<noteq> i" by (auto simp: image_iff)
    then have "filter (\<lambda>s. \<not> (s_id s = i \<and> Q s)) tbl = tbl" by (simp add: filter_id_conv)
    then show ?thesis by simp
  next
    case False
    with Cons show ?thesis by simp
  qed
qed

text \<open>
  Claim C9.  \<open>deleteSession userId sessionId\<close> removes exactly the rows whose id is
  \<open>sessionId\<close> and whose owner is \<open>userId\<close>, keeps every other row in place and leaves the
  cache alone; when no such row exists (the id may belong to another user) the whole state
  is returned unchanged; and since ids are a primary key, at most one row goes.  The model
  has no error branch: the code raises nothing on either path.
\<close>

theorem deleteSession_frame:
  "sessionRepository (deleteSession userId sessionId st)
     = filter (\<lambda>s. \<not> (s_id s = sessionId \<and> s_userId s = userId)) (sessionRepository st)
   \<and> redisService (deleteSession userId sessionId st) = redisService st
   \<and> ((\<forall>s \<in> set (sessionRepository st). \<not> (s_id s = sessionId \<and> s_userId s = userId))
        \<longrightarrow> deleteSession userId sessionId st = st)
   \<and> (distinct (map s_id (sessionRepository st))
        \<longrightarrow> length (sessionRepository st)
            \<le> length (sessionRepository (deleteSession userId sessionId st)) + 1)"
proof -
  let ?P = "\<lambda>s. s_id s = sessionId \<and> s_userId s = userId"
  have a: "sessionRepository (deleteSession userId sessionId st)
           = filter (\<lambda>s. \<not> ?P s) (sessionRepository st)"
  proof (cases "find ?P (sessionRepository st)")
    case None
    then have "\<forall>s \<in> set (sessionRepository st). \<not> ?P s" by (simp add: find_None_iff)
    then have "filter (\<lambda>s. \<not> ?P s) (sessionRepository st) = sessionRepository st"
      by (simp add: filter_id_conv)
    with None show ?thesis by (simp add: deleteSession_def)
  next
    case (Some s)
    then show ?thesis by (simp add: deleteSession_def delete_by_id_user_def)
  qed
  have b: "redisService (deleteSession userId sessionId st) = redisService st"
    by (simp add: deleteSession_def split: option.splits)
  have c: "(\<forall>s \<in> set (sessionRepository st). \<not> ?P s) \<longrightarrow> deleteSession userId sessionId st = st"
  proof
    assume "\<forall>s \<in> set (sessionRepository st). \<not> ?P s"
    then have "find ?P (sessionRepository st) = None" by (simp add: find_None_iff)
    then show "deleteSession userId sessionId st = st" by (simp add: deleteSession_def)
  qed
  have d: "distinct (map s_id (sessionRepository st))
        \<longrightarrow> length (sessionRepository st)
            \<le> length (sessionRepository (deleteSession userId sessionId st)) + 1"
    unfolding a using distinct_ids_filter_length [of "sessionRepository st" sessionId "\<lambda>s. s_userId s = userId"]
    by simp
  from a b c d show ?thesis by blast
qed

text \<open>
  The theorem at the sample table: session \<open>s1\<close> belongs to user \<open>u1\<close>; asked by \<open>u2\<close> the
  deletion changes nothing, asked by \<open>u1\<close> it removes that one row.
\<close>

theorem deleteSession_frame_witness:
  "deleteSession ''u2'' ''s1'' three_sessions = three_sessions
   \<and> distinct (map s_id (sessionRepository three_sessions))
   \<and> sessionRepository (deleteSession ''u1'' ''s1'' three_sessions) = [session2, session3]"
proof -
  have h: "\<forall>s \<in> set (sessionRepository three_sessions). \<not> (s_id s = ''s1'' \<and> s_userId s = ''u2'')"
    by code_simp
  have pk: "distinct (map s_id (sessionRepository three_sessions))" by code_simp
  have f: "filter (\<lambda>s. \<not> (s_id s = ''s1'' \<and> s_userId s = ''u1'')) (sessionRepository three_sessions)
           = [session2, session3]"
    by code_simp
  from deleteSession_frame [of "''u2''" "''s1''" three_sessions] h
  have a: "deleteSession ''u2'' ''s1'' three_sessions = three_sessions" by blast
  from deleteSession_frame [of "''u1''" "''s1''" three_sessions] f
  have b: "sessionRepository (deleteSession ''u1'' ''s1'' three_sessions) = [session2, session3]"
    by simp
  from a pk b show ?thesis by blast
qed

subsection \<open>Validating an access token\<close>

lemma findOne_by_id_distinct:
  "distinct (map s_id tbl) \<Longrightarrow> s \<in> set tbl \<Longrightarrow> findOne_by_id tbl (s_id s) = Some s"
  unfolding findOne_by_id_def
  by (induction tbl) (auto simp: image_iff)

lemma findOne_by_id_mem: "findOne_by_id tbl i = Some s \<Longrightarrow> s \<in> set tbl \<and> s_id s = i"
  unfolding findOne_by_id_def by (auto simp: find_Some_iff)

lemma set_find_recent: "set (find_recent tbl now n) \<subseteq> {s \<in> set tbl. s_expiresAt s > now}"
  unfolding find_recent_def
  using set_take_subset [of n "sort_key (\<lambda>s. - s_createdAt s) (filter (\<lambda>s. s_expiresAt s > now) tbl)"]
  by auto

lemma validateTokenFromCache_repo:
  "sessionRepository (snd (validateTokenFromCache vt now token p st)) = sessionRepository st"
  by (simp add: validateTokenFromCache_def Let_def split: option.splits)

lemma validateTokenFromCache_Some:
  "validateTokenFromCache vt now token p st = (Some x, st1) \<Longrightarrow>
     x \<in> set (sessionRepository st) \<and> vt token (s_tokenHash x)"
  by (auto simp: validateTokenFromCache_def Let_def split: option.splits if_splits
      dest: findOne_by_id_mem)

lemma validateTokenFromCache_hit:
  assumes "getCachedSessionByAccessToken (redisService st) now p = Some (s_id s)"
      and "s_id s \<noteq> []" and "findOne_by_id (sessionRepository st) (s_id s) = Some s"
      and "now < s_expiresAt s" and "vt token (s_tokenHash s)"
  shows "validateTokenFromCache vt now token p st = (Some s, st)"
  using assms by (simp add: validateTokenFromCache_def Let_def truthy_def)

lemma validateTokenFromDatabase_found:
  assumes "s \<in> set (find_recent (sessionRepository st) now RECENT_LOOKUP_LIMIT)"
      and "vt token (s_tokenHash s)"
      and "\<forall>s' \<in> set (sessionRepository st). vt token (s_tokenHash s') \<longrightarrow> s' = s"
  shows "fst (validateTokenFromDatabase vt cfg now token p st) = Some s"
proof -
  let ?rs = "find_recent (sessionRepository st) now RECENT_LOOKUP_LIMIT"
  from assms(1,2) have "find (\<lambda>x. vt token (s_tokenHash x)) ?rs \<noteq> None"
    by (auto simp: find_None_iff)
  then obtain x where x: "find (\<lambda>x. vt token (s_tokenHash x)) ?rs = Some x" by blast
  then have "x \<in> set ?rs" "vt token (s_tokenHash x)" by (auto simp: find_Some_iff)
  with set_find_recent [of "sessionRepository st" now RECENT_LOOKUP_LIMIT] assms(3)
  have "x = s" by blast
  with x show ?thesis by (simp add: validateTokenFromDatabase_def Let_def)
qed

text \<open>
  Claim C2, as amended.  Let \<open>t\<close> be a token of valid format and \<open>s\<close> a stored session with
  \<open>verifyToken t (accessHash s)\<close> and \<open>now < expiresAt s\<close>, the only stored session whose
  hash verifies \<open>t\<close>.  If the cache maps the prefix of \<open>t\<close> to the id of \<open>s\<close>, or \<open>s\<close> is among
  the \<open>RECENT_LOOKUP_LIMIT = 3\<close> most recently created sessions that have not expired, then
  \<open>validateSession t\<close> returns \<open>s\<close>.
\<close>

theorem validateSession_finds_session:
  assumes fmt: "validateTokenFormat cfg t"
      and ver: "vt t (s_tokenHash s)"
      and live: "now < s_expiresAt s"
      and stored: "s \<in> set (sessionRepository st)"
      and pk: "distinct (map s_id (sessionRepository st))"
      and only: "\<forall>s' \<in> set (sessionRepository st). vt t (s_tokenHash s') \<longrightarrow> s' = s"
      and reach: "(getCachedSessionByAccessToken (redisService st) now (getTokenPrefix t)
                     = Some (s_id s) \<and> s_id s \<noteq> [])
                  \<or> s \<in> set (find_recent (sessionRepository st) now RECENT_LOOKUP_LIMIT)"
  shows "fst (validateSession vt cfg now t st) = Some s"
proof -
  let ?p = "getTokenPrefix t"
  obtain r st1 where c: "validateTokenFromCache vt now t ?p st = (r, st1)" by force
  show ?thesis
  proof (cases r)
    case (Some x)
    with c validateTokenFromCache_Some [of vt now t ?p st x st1] only have "x = s" by blast
    with c Some fmt show ?thesis by (simp add: validateSession_def Let_def)
  next
    case None
    have repo: "sessionRepository st1 = sessionRepository st"
      using validateTokenFromCache_repo [of vt now t ?p st] c by simp
    have "\<not> (getCachedSessionByAccessToken (redisService st) now ?p = Some (s_id s)
              \<and> s_id s \<noteq> [])"
    proof
      assume h: "getCachedSessionByAccessToken (redisService st) now ?p = Some (s_id s)
                 \<and> s_id s \<noteq> []"
      have "validateTokenFromCache vt now t ?p st = (Some s, st)"
        using h findOne_by_id_distinct [OF pk stored] live ver
        by (intro validateTokenFromCache_hit) simp_all
      with c None show False by simp
    qed
    with reach have "s \<in> set (find_recent (sessionRepository st1) now RECENT_LOOKUP_LIMIT)"
      by (simp add: repo)
    then have "fst (validateTokenFromDatabase vt cfg now t ?p st1) = Some s"
      using ver only by (intro validateTokenFromDatabase_found) (simp_all add: repo)
    with c None fmt show ?thesis by (simp add: validateSession_def Let_def)
  qed
qed

text \<open>The theorem at a table of three live sessions and an empty cache.\<close>

theorem validateSession_finds_session_witness:
  "validateTokenFormat example_config ''a1b2''
   \<and> toy_bcrypt ''a1b2'' (s_tokenHash session1)
   \<and> 5000 < s_expiresAt session1
   \<and> session1 \<in> set (find_recent (sessionRepository three_sessions) 5000 RECENT_LOOKUP_LIMIT)
   \<and> fst (validateSession toy_bcrypt example_config 5000 ''a1b2'' three_sessions) = Some session1"
proof -
  have h1: "validateTokenFormat example_config ''a1b2''" by code_simp
  have h2: "toy_bcrypt ''a1b2'' (s_tokenHash session1)" by code_simp
  have h3: "5000 < s_expiresAt session1" by code_simp
  have h4: "session1 \<in> set (sessionRepository three_sessions)" by code_simp
  have h5: "distinct (map s_id (sessionRepository three_sessions))" by code_simp
  have h6: "\<forall>s' \<in> set (sessionRepository three_sessions).
              toy_bcrypt ''a1b2'' (s_tokenHash s') \<longrightarrow> s' = session1" by code_simp
  have h7: "session1 \<in> set (find_recent (sessionRepository three_sessions) 5000 RECENT_LOOKUP_LIMIT)"
    by code_simp
  from validateSession_finds_session [where vt = toy_bcrypt and cfg = example_config
      and t = "''a1b2''" and s = session1 and now = 5000 and st = three_sessions,
      OF h1 h2 h3 h4 h5 h6] h1 h2 h3 h7
  show ?thesis by blast
qed

text \<open>
  The claim as stated fails once the cache entry is gone and three younger sessions exist:
  the fallback reads only the three newest live rows (\<open>take: RECENT_LOOKUP_LIMIT\<close>), so the
  token of the oldest of four live sessions verifies against its stored hash and is
  rejected all the same.
\<close>

theorem validateSession_fourth_session_counterexample:
  "validateTokenFormat example_config ''a1b2''
   \<and> toy_bcrypt ''a1b2'' (s_tokenHash session1)
   \<and> 5000 < s_expiresAt session1
   \<and> session1 \<in> set (sessionRepository four_sessions)
   \<and> fst (validateSession toy_bcrypt example_config 5000 ''a1b2'' four_sessions) = None"
  by code_simp

subsection \<open>Refreshing an access token\<close>

lemma find_Some_mem: "find P xs = Some x \<Longrightarrow> x \<in> set xs \<and> P x"
  by (induction xs) (auto split: if_splits)

lemma findSessionByRefreshTokenFromDatabase_Some:
  "findSessionByRefreshTokenFromDatabase vt now tok st = Some s \<Longrightarrow> s \<in> set (sessionRepository st)"
  unfolding findSessionByRefreshTokenFromDatabase_def find_live_def
  by (auto dest!: find_Some_mem in_set_takeD)

lemma findSessionByRefreshToken_Some:
  "findSessionByRefreshToken vt now tok st = Some s \<Longrightarrow> s \<in> set (sessionRepository st)"
  unfolding findSessionByRefreshToken_def Let_def
  by (auto split: option.splits if_splits
      dest: findOne_by_id_mem findSessionByRefreshTokenFromDatabase_Some)

lemma save_session_rehash:
  assumes pk: "distinct (map s_id tbl)" and mem: "s \<in> set tbl"
  shows "save_session tbl (s \<lparr> s_tokenHash := h \<rparr>) = map (rehash s h) tbl"
proof -
  have "\<And>r. r \<in> set tbl \<Longrightarrow> (s_id r = s_id s) = (r = s)"
    using pk mem by (metis distinct_map inj_onD)
  then have "map (\<lambda>r. if s_id r = s_id (s \<lparr> s_tokenHash := h \<rparr>) then s \<lparr> s_tokenHash := h \<rparr> else r) tbl
             = map (rehash s h) tbl"
    by (intro map_cong) (simp_all add: rehash_def)
  moreover have "\<exists>r \<in> set tbl. s_id r = s_id (s \<lparr> s_tokenHash := h \<rparr>)"
    using mem by force
  ultimately show ?thesis by (simp add: save_session_def)
qed

lemma rehash_fields [simp]:
  "s_id (rehash s h r) = s_id r" "s_expiresAt (rehash s h r) = s_expiresAt r"
  "s_refreshTokenHash (rehash s h r) = s_refreshTokenHash r"
  by (simp_all add: rehash_def)

lemma find_map_rehash:
  assumes "\<And>r. P (rehash s h r) = P r"
  shows "find P (map (rehash s h) xs) = map_option (rehash s h) (find P xs)"
  using assms by (induction xs) simp_all

lemma findOne_by_id_rehash:
  "findOne_by_id (map (rehash s h) tbl) i = map_option (rehash s h) (findOne_by_id tbl i)"
  unfolding findOne_by_id_def by (rule find_map_rehash) simp

lemma find_live_rehash:
  "find_live (map (rehash s h) tbl) now n = map (rehash s h) (find_live tbl now n)"
  by (simp add: find_live_def filter_map comp_def take_map)

lemma fromDatabase_rehash:
  assumes "sessionRepository st' = map (rehash s h) (sessionRepository st)"
  shows "findSessionByRefreshTokenFromDatabase vt now tok st'
         = map_option (rehash s h) (findSessionByRefreshTokenFromDatabase vt now tok st)"
  unfolding findSessionByRefreshTokenFromDatabase_def assms find_live_rehash
  by (rule find_map_rehash) simp

lemma findSessionByRefreshToken_rehash:
  assumes repo: "sessionRepository st' = map (rehash s h) (sessionRepository st)"
      and cache: "getCachedSessionByRefreshToken (redisService st') now (getTokenPrefix tok)
                  = getCachedSessionByRefreshToken (redisService st) now (getTokenPrefix tok)"
  shows "findSessionByRefreshToken vt now tok st'
         = map_option (rehash s h) (findSessionByRefreshToken vt now tok st)"
  unfolding findSessionByRefreshToken_def Let_def cache fromDatabase_rehash [OF repo] repo
    findOne_by_id_rehash
  by (auto split: option.splits)

lemma redis_get_setex_other:
  "k \<noteq> k' \<Longrightarrow> redis_get (redis_setex r now k ttl v) now' k' = redis_get r now' k'"
  by (simp add: redis_get_def redis_setex_def)

lemma texts_incrementRefreshFrequency:
  "texts (snd (incrementRefreshFrequency r now u)) = texts r"
  by (simp add: incrementRefreshFrequency_def redis_incr_def redis_expire_def Let_def
      live_counter_def split: option.splits prod.splits if_splits)

lemma refresh_cache_kept:
  "getCachedSessionByRefreshToken
     (cacheAccessToken (snd (incrementRefreshFrequency r now u)) now p sid ttl) now q
   = getCachedSessionByRefreshToken r now q"
proof -
  have "cachePrefix @ p \<noteq> refreshCachePrefix @ q"
    by (simp add: cachePrefix_def refreshCachePrefix_def)
  then show ?thesis
    by (simp add: getCachedSessionByRefreshToken_def cacheAccessToken_def redis_get_setex_other)
       (simp add: redis_get_def texts_incrementRefreshFrequency)
qed

text \<open>
  Claim C7.  When \<open>refreshSession\<close> succeeds on a table whose ids are a key, it returns the
  generated token, and the table afterwards is the old one with a single row changed: the
  session \<open>s\<close> the refresh token belongs to now carries the new access hash.  Its id, owner,
  refresh hash, expiry and every other field, and every other row, are as before.  The
  refresh token is not rotated: right afterwards the same token still finds that session,
  and refreshing with it again succeeds.
\<close>

theorem refreshSession_rewrites_access_hash_only:
  assumes pk: "distinct (map s_id (sessionRepository st))"
      and ok: "refreshSession vt cfg now generated refreshToken st = Inr (tok, st')"
  shows "\<exists>s \<in> set (sessionRepository st).
           findSessionByRefreshToken vt now refreshToken st = Some s
         \<and> tok = fst generated
         \<and> sessionRepository st'
             = map (\<lambda>r. if r = s then s \<lparr> s_tokenHash := snd generated \<rparr> else r) (sessionRepository st)
         \<and> findSessionByRefreshToken vt now refreshToken st'
             = Some (s \<lparr> s_tokenHash := snd generated \<rparr>)
         \<and> (\<exists>tok2 st2. refreshSession vt cfg now generated2 refreshToken st' = Inr (tok2, st2))"
proof -
  from ok obtain s where f: "findSessionByRefreshToken vt now refreshToken st = Some s"
    by (auto simp: refreshSession_def split: option.splits)
  then have mem: "s \<in> set (sessionRepository st)" by (rule findSessionByRefreshToken_Some)
  let ?h = "snd generated"
  from ok f have tok: "tok = fst generated"
    and st': "st' = snd (generateNewAccessToken cfg now generated s (checkRefreshFrequency now s st))"
    by (auto simp: refreshSession_def generateNewAccessToken_def Let_def)
  have repo: "sessionRepository st' = map (rehash s ?h) (sessionRepository st)"
    unfolding st' using save_session_rehash [OF pk mem, of ?h]
    by (simp add: generateNewAccessToken_def checkRefreshFrequency_def Let_def)
  have cache: "getCachedSessionByRefreshToken (redisService st') now (getTokenPrefix refreshToken)
               = getCachedSessionByRefreshToken (redisService st) now (getTokenPrefix refreshToken)"
    unfolding st'
    by (simp add: generateNewAccessToken_def checkRefreshFrequency_def Let_def refresh_cache_kept)
  have again: "findSessionByRefreshToken vt now refreshToken st' = Some (s \<lparr> s_tokenHash := ?h \<rparr>)"
    using findSessionByRefreshToken_rehash [OF repo cache, of vt] f by (simp add: rehash_def)
  then have "\<exists>tok2 st2. refreshSession vt cfg now generated2 refreshToken st' = Inr (tok2, st2)"
    by (simp add: refreshSession_def)
  with f tok repo again mem show ?thesis
    by (intro bexI [of _ s]) (simp_all add: rehash_def [abs_def])
qed

text \<open>The theorem at the sample table: two refreshes in a row with the token of \<open>s1\<close>.\<close>

theorem refreshSession_rewrites_access_hash_only_witness:
  "distinct (map s_id (sessionRepository three_sessions))
   \<and> (\<exists>tok st'. refreshSession toy_bcrypt example_config 5000 (''0a0b'', ''$2b$0a0b'') ''9f9f''
                    three_sessions = Inr (tok, st')
         \<and> tok = ''0a0b''
         \<and> length (sessionRepository st') = 3
         \<and> (\<exists>tok2 st2. refreshSession toy_bcrypt example_config 5000 (''1c1d'', ''$2b$1c1d'')
                          ''9f9f'' st' = Inr (tok2, st2)))"
proof -
  have pk: "distinct (map s_id (sessionRepository three_sessions))" by code_simp
  have "\<not> isl (refreshSession toy_bcrypt example_config 5000 (''0a0b'', ''$2b$0a0b'') ''9f9f''
                 three_sessions)"
    by code_simp
  then obtain tok st' where ok: "refreshSession toy_bcrypt example_config 5000
      (''0a0b'', ''$2b$0a0b'') ''9f9f'' three_sessions = Inr (tok, st')"
    by (cases "refreshSession toy_bcrypt example_config 5000 (''0a0b'', ''$2b$0a0b'') ''9f9f''
                 three_sessions") auto
  have three: "length (sessionRepository three_sessions) = 3" by code_simp
  from refreshSession_rewrites_access_hash_only [OF pk ok, of "(''1c1d'', ''$2b$1c1d'')"]
  have "tok = ''0a0b'' \<and> length (sessionRepository st') = 3
        \<and> (\<exists>tok2 st2. refreshSession toy_bcrypt example_config 5000 (''1c1d'', ''$2b$1c1d'')
                          ''9f9f'' st' = Inr (tok2, st2))"
    using three by auto
  with pk ok show ?thesis by blast
qed

subsection \<open>The guard's address check\<close>

text \<open>
  Claim C10.  The guard answers \<open>SESSION_IP_MISMATCH\<close> only when address validation is
  enabled, the validated session has a stored non-empty address, the request presents a
  non-empty client address (\<open>request.ip\<close>, else the connection's remote address), and the
  two differ.  So a session that stored no address, or a request whose address cannot be
  determined, is never rejected with that error.
\<close>

theorem canActivate_ip_mismatch_only_when:
  assumes "fst (canActivate vt cfg now request st) = Inl SESSION_IP_MISMATCH"
  shows "enableIpValidation cfg
       \<and> (\<exists>token session.
             extractTokenFromHeader request = Some token
           \<and> fst (validateSession vt cfg now token st) = Some session
           \<and> s_ipAddress session \<noteq> None \<and> s_ipAddress session \<noteq> Some []
           \<and> currentIp request \<noteq> None \<and> currentIp request \<noteq> Some []
           \<and> s_ipAddress session \<noteq> currentIp request)"
proof -
  from assms obtain token where t: "extractTokenFromHeader request = Some token"
    by (cases "extractTokenFromHeader request") (auto simp: canActivate_def Let_def truthy_def)
  obtain r st1 where v: "validateSession vt cfg now token st = (r, st1)" by force
  from assms t v obtain session where s: "r = Some session"
    by (cases r) (auto simp: canActivate_def Let_def truthy_def split: if_splits)
  from assms t v s have "enableIpValidation cfg \<and> truthy (s_ipAddress session)
      \<and> truthy (currentIp request) \<and> s_ipAddress session \<noteq> currentIp request"
    by (auto simp: canActivate_def Let_def split: if_splits)
  then have "enableIpValidation cfg \<and> s_ipAddress session \<noteq> None \<and> s_ipAddress session \<noteq> Some []
      \<and> currentIp request \<noteq> None \<and> currentIp request \<noteq> Some []
      \<and> s_ipAddress session \<noteq> currentIp request"
    by (auto simp: truthy_def split: option.splits)
  with t v s show ?thesis by auto
qed

text \<open>The theorem at a request from 10.9.9.9 for a session opened from 10.0.0.1.\<close>

theorem canActivate_ip_mismatch_only_when_witness:
  "fst (canActivate toy_bcrypt example_config 5000 example_request three_sessions)
     = Inl SESSION_IP_MISMATCH
   \<and> enableIpValidation example_config
   \<and> (\<exists>token session.
             extractTokenFromHeader example_request = Some token
           \<and> fst (validateSession toy_bcrypt example_config 5000 token three_sessions) = Some session
           \<and> s_ipAddress session \<noteq> None \<and> s_ipAddress session \<noteq> Some []
           \<and> currentIp example_request \<noteq> None \<and> currentIp example_request \<noteq> Some []
           \<and> s_ipAddress session \<noteq> currentIp example_request)"
proof -
  have h: "fst (canActivate toy_bcrypt example_config 5000 example_request three_sessions)
             = Inl SESSION_IP_MISMATCH"
    by code_simp
  from canActivate_ip_mismatch_only_when [OF h] h show ?thesis by blast
qed

section \<open>Properties of the OTP service\<close>

subsection \<open>Decimal digits\<close>













subsection \<open>The generated code\<close>












subsection \<open>A failed dispatch leaves the code and the cooldown behind\<close>

lemma setRateLimitKeys_get:
  assumes "now' < now + cooldown * 1000"
  shows "redis_get (setRateLimitKeys r now phone cooldown) now' (''otp:send:limit:'' @ phone) = Some ''1''"
    and "redis_get (setRateLimitKeys r now phone cooldown) now' (''otp:last_request:'' @ phone) = Some ''1''"
  using assms by (simp_all add: setRateLimitKeys_def Let_def redis_get_def redis_setex_def)

lemma setRateLimitKeys_otps: "otps (setRateLimitKeys r now phone cooldown) = otps r"
  by (simp add: setRateLimitKeys_def Let_def redis_setex_def)

lemma checkRateLimits_limited:
  "redis_get r now (''otp:send:limit:'' @ phone) = Some ''1'' \<Longrightarrow>
   checkRateLimits r now phone = Some (TooManyRequestsException ''EXCEEDED_SEND_LIMIT'')"
  by (simp add: checkRateLimits_def Let_def truthy_def)

text \<open>
  Claim C8.  \<open>sendOtp\<close> stores the OTP record and sets both cooldown keys before it calls
  the SMS provider.  When the rate limits let a call through and the provider raises, the
  call ends with the provider's error, and the store it leaves holds the OTP record and
  both cooldown keys; nothing is rolled back.  Any later \<open>sendOtp\<close> for the same phone
  inside the cooldown window then fails with \<open>EXCEEDED_SEND_LIMIT\<close>, whatever the provider
  would do, although no message was delivered.
\<close>

theorem sendOtp_sms_failure_keeps_state:
  assumes clear: "checkRateLimits r now phone = None"
      and fail: "sms phone (generateOtpCode (otp_length cfg) random) = Some e"
      and later: "now \<le> now'"
      and window: "now' < now + sendCooldownSeconds cfg * 1000"
  shows "\<exists>r'. sendOtp cfg sms random now phone ip userAgent r = (Inl (SmsProviderError e), r')
          \<and> otps r' (''otp:phone:'' @ phone)
              = Some (\<lparr> o_code = generateOtpCode (otp_length cfg) random,
                         o_expiresAt = now + expirySeconds cfg * 1000, o_attempts = 0,
                         o_phone = phone, o_ip = ip, o_userAgent = userAgent \<rparr>,
                      now + expirySeconds cfg * 1000)
          \<and> redis_get r' now' (''otp:send:limit:'' @ phone) = Some ''1''
          \<and> redis_get r' now' (''otp:last_request:'' @ phone) = Some ''1''
          \<and> fst (sendOtp cfg sms' random' now' phone ip' userAgent' r')
              = Inl (TooManyRequestsException ''EXCEEDED_SEND_LIMIT'')"
proof -
  let ?code = "generateOtpCode (otp_length cfg) random"
  let ?r1 = "storeOtp r now phone ?code (expirySeconds cfg) ip userAgent"
  let ?r2 = "setRateLimitKeys ?r1 now phone (sendCooldownSeconds cfg)"
  have res: "sendOtp cfg sms random now phone ip userAgent r = (Inl (SmsProviderError e), ?r2)"
    using clear fail by (simp add: sendOtp_def Let_def)
  have otp: "otps ?r2 (''otp:phone:'' @ phone)
              = Some (\<lparr> o_code = ?code, o_expiresAt = now + expirySeconds cfg * 1000,
                         o_attempts = 0, o_phone = phone, o_ip = ip, o_userAgent = userAgent \<rparr>,
                      now + expirySeconds cfg * 1000)"
    by (simp add: setRateLimitKeys_otps storeOtp_def Let_def redis_setex_otp_def)
  note keys = setRateLimitKeys_get [OF window, of ?r1 phone]
  have again: "fst (sendOtp cfg sms' random' now' phone ip' userAgent' ?r2)
              = Inl (TooManyRequestsException ''EXCEEDED_SEND_LIMIT'')"
    using checkRateLimits_limited [OF keys(1)] by (simp add: sendOtp_def)
  from res otp keys again show ?thesis by blast
qed

text \<open>The theorem at an empty store: a failed send at time 1000, a second try a minute later.\<close>

theorem sendOtp_sms_failure_keeps_state_witness:
  "checkRateLimits empty_redis 1000 ''09123456789'' = None
   \<and> (1000 :: int) \<le> 60000
   \<and> (60000 :: int) < 1000 + sendCooldownSeconds example_otp_config * 1000
   \<and> (\<exists>r'. sendOtp example_otp_config failing_sms (1/2) 1000 ''09123456789'' ''10.0.0.1'' ''curl''
                empty_redis = (Inl (SmsProviderError ''provider unreachable''), r')
          \<and> redis_get r' 60000 (''otp:send:limit:'' @ ''09123456789'') = Some ''1''
          \<and> fst (sendOtp example_otp_config working_sms (1/4) 60000 ''09123456789'' ''10.0.0.1''
                    ''curl'' r')
              = Inl (TooManyRequestsException ''EXCEEDED_SEND_LIMIT''))"
proof -
  have clear: "checkRateLimits empty_redis 1000 ''09123456789'' = None"
    by (simp add: checkRateLimits_def Let_def redis_get_def empty_redis_def truthy_def)
  have fail: "failing_sms ''09123456789'' (generateOtpCode (otp_length example_otp_config) (1/2))
              = Some ''provider unreachable''"
    by (simp add: failing_sms_def)
  have later: "(1000 :: int) \<le> 60000" by simp
  have window: "(60000 :: int) < 1000 + sendCooldownSeconds example_otp_config * 1000"
    by (simp add: example_otp_config_def)
  from sendOtp_sms_failure_keeps_state [where sms = failing_sms and cfg = example_otp_config
      and random = "1/2" and r = empty_redis and ip = "''10.0.0.1''" and userAgent = "''curl''"
      and sms' = working_sms and random' = "1/4" and ip' = "''10.0.0.1''"
      and userAgent' = "''curl''", OF clear fail later window]
    clear later window
  show ?thesis by blast
qed

section \<open>Properties of the broker adapter and the worker\<close>

subsection \<open>Retry or dead-letter\<close>

text \<open>
  What the code does on a handler error: it republishes (and acks) exactly when the
  header count plus one is below \<open>MAX_RETRIES\<close>, and nacks without requeue otherwise.
\<close>

lemma handleMessageRetry_republishes_iff:
  "(\<exists>h p. handleMessageRetry cfg msg q e = [Publish [] q (m_content msg) h p, Ack msg])
     \<longleftrightarrow> header_retry_count msg + 1 < effective_maxRetries cfg"
  by (auto simp: handleMessageRetry_def Let_def)

text \<open>
  Claim C4 says that a failed message whose \<open>x-retry-count\<close> is strictly less than
  \<open>MAX_RETRIES\<close> is republished with the count incremented.  At the default
  \<open>MAX_RETRIES = 3\<close> a message that carries \<open>x-retry-count = 2\<close> satisfies \<open>2 < 3\<close>, yet
  the code compares \<open>retryCount = 2 + 1\<close> with the limit and sends it to the dead-letter
  queue: nothing is published, the message is nacked without requeue.
\<close>

theorem processMessage_third_failure_is_dead_lettered:
  "header_retry_count twice_retried = 2
   \<and> effective_maxRetries (Some 3) = 3
   \<and> processMessage (Some 3) twice_retried ''prediction.process'' failing_handler
       = [Nack twice_retried False False]"
  by (simp add: processMessage_def handleMessageRetry_def header_retry_count_def
      effective_maxRetries_def twice_retried_def failing_handler_def Let_def)

subsection \<open>One result row per submission\<close>










end
